theory Spec2Isabelle
  imports Main "HOL-Library.Word"
begin

section \<open>Data model of imagor.go\<close>

type_synonym bytes = "8 word list"

text \<open>
  \<open>imagor.Error\<close> is a struct compared by value (\<open>e == ErrPass\<close>) whose \<open>Code\<close> field
  \<open>ServeHTTP\<close> hands to \<open>WriteHeader\<close>.
\<close>

datatype Error = Error (Message: string) (Code: int)

text \<open>
  A non-nil value of Go's \<open>error\<close> interface: an \<open>imagor.Error\<close>, \<open>context.Canceled\<close>, an
  error wrapping another one, or any other error. A nil error is \<open>None\<close> of
  \<open>goerror option\<close>.
\<close>

datatype goerror =
    Imagor Error
  | Canceled
  | Wrapped string goerror
  | Opaque string

text \<open>\<open>errors.Is(e, context.Canceled)\<close>: \<open>e\<close> or an error it wraps is \<open>context.Canceled\<close>.\<close>

fun errors_Is_Canceled :: "goerror \<Rightarrow> bool" where
  "errors_Is_Canceled (Imagor e) = False"
| "errors_Is_Canceled Canceled = True"
| "errors_Is_Canceled (Wrapped s e) = errors_Is_Canceled e"
| "errors_Is_Canceled (Opaque s) = False"

fun Error_text :: "goerror \<Rightarrow> string" where
  "Error_text (Imagor e) = Message e"
| "Error_text Canceled = ''context canceled''"
| "Error_text (Wrapped s e) = s @ '': '' @ Error_text e"
| "Error_text (Opaque s) = s"

record Meta =
  ContentType :: string

text \<open>
  The fields of \<open>Params\<close> that imagor.go reads (\<open>Path\<close>, \<open>Image\<close>, \<open>Unsafe\<close>, \<open>Meta\<close>) and the
  token embedded in the request, which \<open>Verify\<close> compares.
\<close>

record Params =
  params_Path :: string
  params_Image :: string
  params_Unsafe :: bool
  params_Meta :: bool
  params_Hash :: string

text \<open>Of \<open>*http.Request\<close> the handler reads \<open>r.URL.EscapedPath()\<close>; contexts are not modelled.\<close>

record request =
  EscapedPath :: string

type_synonym load_result = "bytes \<times> goerror option"

type_synonym process_result = "bytes \<times> Meta option \<times> goerror option"

text \<open>\<open>Loader.Load(r, image)\<close> and \<open>Storage.Save(ctx, image, buf)\<close>.\<close>

type_synonym Loader = "request \<Rightarrow> string \<Rightarrow> load_result"

type_synonym Storage = "string \<Rightarrow> bytes \<Rightarrow> goerror option"

text \<open>
  \<open>Processor.Process(ctx, buf, params, load)\<close> receives the callback \<open>load\<close> and may call
  it any number of times before it returns: a stage is a tree that either returns its
  result or asks for an image and continues with what \<open>load\<close> returned.
\<close>

datatype 'a calls_load =
    Result 'a
  | CallLoad string "load_result \<Rightarrow> 'a calls_load"

type_synonym Processor = "bytes \<Rightarrow> Params \<Rightarrow> process_result calls_load"

record Imagor =
  Unsafe :: bool
  Secret :: string
  Loaders :: "Loader list"
  Storages :: "Storage list"
  Processors :: "Processor list"
  RequestTimeout :: int
  CacheTTL :: int
  Debug :: bool

text \<open>
  The declarations that imagor.go uses and that live outside it: the sentinel errors of
  errors.go, \<open>Hash\<close> and \<open>ParseParams\<close> of the params file, and \<open>http.DetectContentType\<close>,
  \<open>json.Marshal\<close> and \<open>strconv.Itoa\<close> of the standard library. They are parameters of the
  model.
\<close>

datatype json_arg =
    JSON_map "(string \<times> string) list"
  | JSON_meta Meta
  | JSON_error goerror

record deps =
  ErrPass :: Error
  ErrNotFound :: Error
  ErrHashMismatch :: Error
  Hash :: "string \<Rightarrow> string \<Rightarrow> string"
  ParseParams :: "string \<Rightarrow> Params"
  DetectContentType :: "bytes \<Rightarrow> string"
  json_Marshal :: "json_arg \<Rightarrow> bytes"
  Itoa :: "nat \<Rightarrow> string"

text \<open>
  Modelled from the spec: \<open>Params.Verify\<close>, which is not in imagor.go. The expected token
  is recomputed from the canonical path and the shared secret and compared with the
  token embedded in the request.
\<close>

definition Verify :: "deps \<Rightarrow> Params \<Rightarrow> string \<Rightarrow> bool" where
  "Verify d params secret = (Hash d (params_Path params) secret = params_Hash params)"

text \<open>
  Modelled from the spec: \<open>WrapError\<close> of errors.go, the error classifier. A nil error
  stays nil (\<open>load\<close> applies it to every outcome and \<open>Do\<close> then tests \<open>err != nil\<close>), an
  \<open>imagor.Error\<close> is already classified, and every other error becomes an internal
  error of status 500.
\<close>

definition WrapError :: "goerror option \<Rightarrow> goerror option" where
  "WrapError err =
     (case err of
        None \<Rightarrow> None
      | Some (Imagor e) \<Rightarrow> Some (Imagor e)
      | Some e \<Rightarrow> Some (Imagor (Error (Error_text e) 500)))"

section \<open>Effects\<close>

text \<open>
  A \<open>func()\<close> value as \<open>save\<close> holds it in \<open>cancel\<close>: nil, or the cancel function that
  \<open>context.WithTimeout\<close> returned.
\<close>

datatype func = NilFunc | CancelFunc

datatype level = LevelDebug | LevelInfo | LevelError

text \<open>
  What a call does besides returning: a lookup of the cache, the call of the loader or
  processor at an index of its list together with what it returned, a goroutine started
  for the storage at an index with the \<open>cancel\<close> it captured, and a line of the logger.
\<close>

datatype event =
    CacheHit string
  | CacheMiss string
  | LoaderLoad nat string load_result
  | ProcessorProcess nat bytes process_result
  | Go nat string bytes func
  | Logged level string "goerror option"

type_synonym cache = "string \<rightharpoonup> load_result"

definition cold :: cache where
  "cold = Map.empty"

text \<open>
  Modelled from the spec: \<open>DoBytes\<close> of the cache library, seen by one caller at a time.
  A live entry for the key is returned without running the producing function;
  otherwise the function runs once, its outcome is stored under the key and returned.
  Entries that have expired are absent from the map.
\<close>

definition DoBytes ::
  "cache \<Rightarrow> string \<Rightarrow> load_result \<times> event list \<Rightarrow> load_result \<times> cache \<times> event list" where
  "DoBytes c key produce =
     (case c key of
        Some entry \<Rightarrow> (entry, c, [CacheHit key])
      | None \<Rightarrow> (fst produce, c(key \<mapsto> fst produce), CacheMiss key # snd produce))"

section \<open>save\<close>

text \<open>
  One goroutine per storage. \<open>cancel\<close> is declared nil and assigned only when
  \<open>RequestTimeout > 0\<close>; the goroutine captures it.
\<close>

fun save_loop :: "Imagor \<Rightarrow> Storage list \<Rightarrow> nat \<Rightarrow> string \<Rightarrow> bytes \<Rightarrow> event list" where
  "save_loop app [] i img buf = []"
| "save_loop app (storage # rest) i img buf =
     Go i img buf (if RequestTimeout app > 0 then CancelFunc else NilFunc)
       # save_loop app rest (Suc i) img buf"

definition save :: "Imagor \<Rightarrow> Storage list \<Rightarrow> string \<Rightarrow> bytes \<Rightarrow> event list" where
  "save app storages img buf = save_loop app storages 0 img buf"

text \<open>
  The body of the goroutine: \<open>s.Save\<close> is called and its outcome logged, then the deferred
  \<open>cancel()\<close> runs. Calling a nil function panics.
\<close>

datatype exit = Returned | Panicked

definition save_goroutine ::
  "Imagor \<Rightarrow> Storage \<Rightarrow> func \<Rightarrow> string \<Rightarrow> bytes \<Rightarrow> event list \<times> exit" where
  "save_goroutine app s cancel img buf =
     ((case s img buf of
         Some err \<Rightarrow> [Logged LevelError ''save'' (Some err)]
       | None \<Rightarrow> if Debug app then [Logged LevelDebug ''saved'' None] else []),
      (case cancel of NilFunc \<Rightarrow> Panicked | CancelFunc \<Rightarrow> Returned))"

text \<open>The goroutines that a list of events started, run one after the other.\<close>

fun run_goroutines :: "Imagor \<Rightarrow> event list \<Rightarrow> exit list" where
  "run_goroutines app [] = []"
| "run_goroutines app (Go i img buf cancel # evs) =
     (if i < length (Storages app)
      then snd (save_goroutine app (Storages app ! i) cancel img buf) # run_goroutines app evs
      else run_goroutines app evs)"
| "run_goroutines app (ev # evs) = run_goroutines app evs"

section \<open>load\<close>

text \<open>
  The loop over \<open>app.Loaders\<close> inside the producing function of \<open>load\<close>; \<open>buf\<close> and \<open>err\<close>
  are its named results, \<open>i\<close> the index of the next loader.
\<close>

fun load_loop ::
  "deps \<Rightarrow> Imagor \<Rightarrow> request \<Rightarrow> string \<Rightarrow> Loader list \<Rightarrow> nat \<Rightarrow> bytes \<Rightarrow> goerror option
     \<Rightarrow> bytes \<times> goerror option \<times> event list" where
  "load_loop d app dr img [] i buf err = (buf, err, [])"
| "load_loop d app dr img (loader # rest) i buf err =
     (case loader dr img of (b, e) \<Rightarrow>
        (let buf1 = (if length b > 0 then b else buf) in
         case e of
           None \<Rightarrow> (buf1, None, [LoaderLoad i img (b, e)])
         | Some e1 \<Rightarrow>
             (case load_loop d app dr img rest (Suc i) buf1 (Some e1) of (buf2, err2, evs) \<Rightarrow>
                (buf2, err2,
                 LoaderLoad i img (b, e)
                   # (if e1 \<noteq> Imagor (ErrPass d) \<and> e1 \<noteq> Imagor (ErrNotFound d)
                          \<and> \<not> errors_Is_Canceled e1
                      then [Logged LevelError ''load'' (Some e1)]
                      else if Debug app then [Logged LevelDebug ''load'' (Some e1)] else [])
                   @ evs))))"

text \<open>The producing function that \<open>load\<close> hands to the cache.\<close>

definition load_produce ::
  "deps \<Rightarrow> Imagor \<Rightarrow> request \<Rightarrow> string \<Rightarrow> load_result \<times> event list" where
  "load_produce d app r img =
     (case load_loop d app r img (Loaders app) 0 [] None of (buf, err, evs) \<Rightarrow>
        (case err of
           None \<Rightarrow>
             ((buf, None),
              evs @ (if Debug app then [Logged LevelDebug ''loaded'' None] else [])
                  @ (if length (Storages app) > 0 then save app (Storages app) img buf else []))
         | Some e \<Rightarrow>
             if \<not> errors_Is_Canceled e then
               (let e1 = (if e = Imagor (ErrPass d) then Imagor (ErrNotFound d) else e) in
                ((buf, Some e1), evs @ [Logged LevelError ''load'' (Some e1)]))
             else ((buf, Some e), evs)))"

definition load ::
  "deps \<Rightarrow> Imagor \<Rightarrow> request \<Rightarrow> string \<Rightarrow> cache \<Rightarrow> load_result \<times> cache \<times> event list" where
  "load d app r img c =
     (case DoBytes c img (load_produce d app r img) of ((buf, err), c1, evs) \<Rightarrow>
        ((buf, WrapError err), c1, evs))"

section \<open>Do\<close>

text \<open>Running a stage: each call of the callback is a call of \<open>load\<close> on the same request.\<close>

primrec run_stage ::
  "deps \<Rightarrow> Imagor \<Rightarrow> request \<Rightarrow> 'a calls_load \<Rightarrow> cache \<Rightarrow> 'a \<times> cache \<times> event list" where
  "run_stage d app r (Result x) c = (x, c, [])"
| "run_stage d app r (CallLoad img k) c =
     (case load d app r img c of (res, c1, evs1) \<Rightarrow>
        (case run_stage d app r (k res) c1 of (x, c2, evs2) \<Rightarrow> (x, c2, evs1 @ evs2)))"

text \<open>
  The loop over \<open>app.Processors\<close>; \<open>buf\<close>, \<open>meta\<close> and \<open>err\<close> are the named results of
  \<open>Do\<close>, \<open>i\<close> the index of the next processor.
\<close>

fun Do_loop ::
  "deps \<Rightarrow> Imagor \<Rightarrow> request \<Rightarrow> Params \<Rightarrow> Processor list \<Rightarrow> nat \<Rightarrow> bytes \<Rightarrow> Meta option
     \<Rightarrow> goerror option \<Rightarrow> cache \<Rightarrow> process_result \<times> cache \<times> event list" where
  "Do_loop d app r params [] i buf meta err c = ((buf, meta, err), c, [])"
| "Do_loop d app r params (processor # rest) i buf meta err c =
     (case run_stage d app r (processor buf params) c of ((b, m, e), c1, evs1) \<Rightarrow>
        (case e of
           None \<Rightarrow>
             ((b, m, err), c1,
              evs1 @ ProcessorProcess i buf (b, m, e)
                # (if Debug app then [Logged LevelDebug ''processed'' None] else []))
         | Some e1 \<Rightarrow>
             if e1 = Imagor (ErrPass d) then
               (case Do_loop d app r params rest (Suc i) (if length b > 0 then b else buf)
                       meta err c1 of (res, c2, evs2) \<Rightarrow>
                  (res, c2,
                   evs1 @ ProcessorProcess i buf (b, m, e)
                     # (if Debug app then [Logged LevelDebug ''process'' (Some e1)] else [])
                     @ evs2))
             else
               (case Do_loop d app r params rest (Suc i) buf meta (Some e1) c1 of
                  (res, c2, evs2) \<Rightarrow>
                  (res, c2,
                   evs1 @ ProcessorProcess i buf (b, m, e)
                     # Logged LevelError ''process'' (Some e1) # evs2))))"

definition Do ::
  "deps \<Rightarrow> Imagor \<Rightarrow> request \<Rightarrow> Params \<Rightarrow> cache \<Rightarrow> process_result \<times> cache \<times> event list" where
  "Do d app r params c =
     (if \<not> (Unsafe app \<and> params_Unsafe params) \<and> \<not> Verify d params (Secret app) then
        (([], None, Some (Imagor (ErrHashMismatch d))), c,
         if Debug app then [Logged LevelDebug ''hash mismatch'' None] else [])
      else
        (case load d app r (params_Image params) c of ((buf, err), c1, evs1) \<Rightarrow>
           (case err of
              Some e \<Rightarrow> ((buf, None, err), c1, evs1 @ [Logged LevelInfo ''load'' err])
            | None \<Rightarrow>
                (case Do_loop d app r params (Processors app) 0 buf None None c1 of
                   (res, c2, evs2) \<Rightarrow> (res, c2, evs1 @ evs2)))))"

section \<open>ServeHTTP\<close>

text \<open>The calls that the handler makes on its \<open>http.ResponseWriter\<close>, in order.\<close>

datatype w_call =
    Header_Set string string
  | WriteHeader int
  | Write bytes

definition Name :: string where
  "Name = ''Imagor''"

definition Version :: string where
  "Version = ''0.1.0''"

definition resJSON :: "deps \<Rightarrow> json_arg \<Rightarrow> w_call list" where
  "resJSON d v =
     (let buf = json_Marshal d v in
      [Header_Set ''Content-Type'' ''application/json'',
       Header_Set ''Content-Length'' (Itoa d (length buf)),
       Write buf])"

text \<open>
  The part of \<open>ServeHTTP\<close> that follows the call of \<open>Do\<close>: what is written for the result
  \<open>(buf, meta, err)\<close>.
\<close>

definition respond :: "deps \<Rightarrow> Params \<Rightarrow> process_result \<Rightarrow> w_call list" where
  "respond d params res =
     (case res of (buf, meta, err) \<Rightarrow>
        (let ln = length buf;
             tail =
               (case err of
                  Some e \<Rightarrow>
                    (case WrapError err of
                       Some (Imagor e1) \<Rightarrow>
                         [WriteHeader (Code (if e1 = ErrPass d then ErrNotFound d else e1))]
                     | _ \<Rightarrow> [])
                    @ (if ln > 0
                       then [Header_Set ''Content-Length'' (Itoa d ln), Write buf]
                       else resJSON d (JSON_error e))
                | None \<Rightarrow> [Header_Set ''Content-Length'' (Itoa d ln), Write buf])
         in case meta of
              Some m \<Rightarrow>
                if params_Meta params then resJSON d (JSON_meta m)
                else Header_Set ''Content-Type'' (ContentType m) # tail
            | None \<Rightarrow>
                (if ln > 0 then [Header_Set ''Content-Type'' (DetectContentType d buf)] else [])
                @ tail))"

definition ServeHTTP ::
  "deps \<Rightarrow> Imagor \<Rightarrow> request \<Rightarrow> cache \<Rightarrow> w_call list \<times> cache \<times> event list" where
  "ServeHTTP d app r c =
     (let uri = EscapedPath r in
      if uri = ''/'' then
        (resJSON d (JSON_map [(''app'', Name), (''version'', Version)]), c, [])
      else
        (let params = ParseParams d uri in
         case Do d app r params c of (res, c1, evs) \<Rightarrow>
           (respond d params res, c1,
            (if Debug app then [Logged LevelDebug ''params'' None] else []) @ evs)))"

section \<open>Vocabulary of the properties\<close>

text \<open>What a call returned and the events it emitted.\<close>

definition returned :: "'a \<times> cache \<times> event list \<Rightarrow> 'a" where
  "returned x = fst x"

definition events :: "'a \<times> cache \<times> event list \<Rightarrow> event list" where
  "events x = snd (snd x)"

text \<open>
  A loader fails on a request when it returns a non-nil error. The loaders that the loop
  tries are those up to and including the first one that does not fail.
\<close>

definition failing :: "request \<Rightarrow> string \<Rightarrow> Loader \<Rightarrow> bool" where
  "failing r img l = (snd (l r img) \<noteq> None)"

definition tried :: "request \<Rightarrow> string \<Rightarrow> Loader list \<Rightarrow> Loader list" where
  "tried r img ls = take (Suc (length (takeWhile (failing r img) ls))) ls"

text \<open>The last non-empty buffer of a list of buffers, \<open>buf\<close> when there is none.\<close>

definition last_nonempty :: "bytes \<Rightarrow> bytes list \<Rightarrow> bytes" where
  "last_nonempty buf bs =
     (case filter (\<lambda>b. length b > 0) bs of [] \<Rightarrow> buf | x # xs \<Rightarrow> last (x # xs))"

text \<open>The indices of the loaders called, the keys looked up in the cache, in order.\<close>

fun loader_calls :: "event list \<Rightarrow> nat list" where
  "loader_calls [] = []"
| "loader_calls (LoaderLoad i img res # evs) = i # loader_calls evs"
| "loader_calls (ev # evs) = loader_calls evs"

fun cache_lookups :: "event list \<Rightarrow> string list" where
  "cache_lookups [] = []"
| "cache_lookups (CacheHit key # evs) = key # cache_lookups evs"
| "cache_lookups (CacheMiss key # evs) = key # cache_lookups evs"
| "cache_lookups (ev # evs) = cache_lookups evs"

text \<open>What the stages returned, in the order they ran, and the non-nil errors among it.\<close>

fun stage_results :: "event list \<Rightarrow> process_result list" where
  "stage_results [] = []"
| "stage_results (ProcessorProcess i buf res # evs) = res # stage_results evs"
| "stage_results (ev # evs) = stage_results evs"

definition stage_errors :: "event list \<Rightarrow> goerror list" where
  "stage_errors evs = List.map_filter (\<lambda>res. snd (snd res)) (stage_results evs)"

text \<open>The status codes written, and the writes that are not header fields.\<close>

fun statuses :: "w_call list \<Rightarrow> int list" where
  "statuses [] = []"
| "statuses (WriteHeader code # ws) = code # statuses ws"
| "statuses (w # ws) = statuses ws"

fun written :: "w_call list \<Rightarrow> w_call list" where
  "written [] = []"
| "written (Header_Set k v # ws) = written ws"
| "written (w # ws) = w # written ws"

section \<open>A concrete configuration\<close>

definition signed_params :: Params where
  "signed_params =
     \<lparr>params_Path = ''a.jpg'', params_Image = ''a.jpg'', params_Unsafe = False,
      params_Meta = False, params_Hash = ''key:a.jpg''\<rparr>"

definition example_deps :: deps where
  "example_deps =
     \<lparr>ErrPass = Error ''pass'' 400,
      ErrNotFound = Error ''not found'' 404,
      ErrHashMismatch = Error ''hash mismatch'' 403,
      Hash = (\<lambda>path secret. secret @ path),
      ParseParams = (\<lambda>uri. signed_params),
      DetectContentType = (\<lambda>buf. ''application/octet-stream''),
      json_Marshal =
        (\<lambda>v. case v of JSON_map m \<Rightarrow> [123] | JSON_meta m \<Rightarrow> [109] | JSON_error e \<Rightarrow> [101]),
      Itoa = (\<lambda>n. replicate n (CHR ''1''))\<rparr>"

text \<open>The same request asking for metadata only.\<close>

definition meta_params :: Params where
  "meta_params = signed_params\<lparr>params_Meta := True\<rparr>"

definition meta_deps :: deps where
  "meta_deps = example_deps\<lparr>ParseParams := (\<lambda>uri. meta_params)\<rparr>"

text \<open>A cache that already holds an outcome carrying \<open>ErrPass\<close> for the image.\<close>

definition stale_cache :: cache where
  "stale_cache = cold(''a.jpg'' \<mapsto> ([], Some (Imagor (Error ''pass'' 400))))"

definition example_request :: request where
  "example_request = \<lparr>EscapedPath = ''/key:a.jpg/a.jpg''\<rparr>"

definition loader_pass :: Loader where
  "loader_pass r img = ([], Some (Imagor (Error ''pass'' 400)))"

definition loader_bytes :: Loader where
  "loader_bytes r img = ([1, 2, 3], None)"

definition loader_partial :: Loader where
  "loader_partial r img = ([4, 5], Some (Opaque ''connection reset''))"

definition loader_empty :: Loader where
  "loader_empty r img = ([], None)"

definition storage_ok :: Storage where
  "storage_ok img buf = None"

definition stage_pass :: Processor where
  "stage_pass buf params = Result ([], None, Some (Imagor (Error ''pass'' 400)))"

definition stage_fails :: Processor where
  "stage_fails buf params = Result ([], None, Some (Opaque ''decode''))"

definition stage_ok :: Processor where
  "stage_ok buf params = Result (buf @ [9], Some \<lparr>ContentType = ''image/png''\<rparr>, None)"

definition example_app :: Imagor where
  "example_app =
     \<lparr>Unsafe = False, Secret = ''key:'', Loaders = [loader_bytes], Storages = [],
      Processors = [], RequestTimeout = 30000000000, CacheTTL = 60000000000, Debug = False\<rparr>"

section \<open>Lemmas\<close>

subsection \<open>The loop over the loaders\<close>

lemma last_nonempty_Cons:
  "last_nonempty buf (b # bs) = last_nonempty (if length b > 0 then b else buf) bs"
  by (simp add: last_nonempty_def split: list.splits)

lemma tried_Nil: "tried r img [] = []"
  by (simp add: tried_def)

lemma tried_Cons:
  "tried r img (l # ls) = (if failing r img l then l # tried r img ls else [l])"
  by (simp add: tried_def)

lemma loader_calls_append: "loader_calls (xs @ ys) = loader_calls xs @ loader_calls ys"
  by (induction xs rule: loader_calls.induct) simp_all

lemma load_loop_result:
  "load_loop d app r img ls i buf err = (buf', err', evs) \<Longrightarrow>
     buf' = last_nonempty buf (map (\<lambda>l. fst (l r img)) (tried r img ls)) \<and>
     err' = (if list_all (failing r img) ls
             then (if ls = [] then err else snd (last ls r img)) else None) \<and>
     loader_calls evs = [i ..< i + length (tried r img ls)]"
proof (induction ls arbitrary: i buf err buf' err' evs)
  case Nil
  then show ?case by (simp add: tried_Nil last_nonempty_def)
next
  case (Cons l ls)
  obtain b e where le: "l r img = (b, e)" by (cases "l r img")
  show ?case
  proof (cases e)
    case None
    with Cons.prems le show ?thesis
      by (auto simp: tried_Cons failing_def last_nonempty_Cons last_nonempty_def)
  next
    case (Some e1)
    obtain buf2 err2 evs2 where rec:
      "load_loop d app r img ls (Suc i) (if length b > 0 then b else buf) (Some e1)
         = (buf2, err2, evs2)"
      by (cases "load_loop d app r img ls (Suc i) (if length b > 0 then b else buf) (Some e1)")
    from Cons.IH [OF rec] Cons.prems le Some rec show ?thesis
      by (auto simp: tried_Cons failing_def last_nonempty_Cons loader_calls_append
          upt_rec [of i] simp del: upt.simps)
  qed
qed

subsection \<open>The stages are called by the loop of Do only\<close>

lemma stage_results_append: "stage_results (xs @ ys) = stage_results xs @ stage_results ys"
  by (induction xs rule: stage_results.induct) simp_all

lemma stage_results_save_loop: "stage_results (save_loop app ss i img buf) = []"
  by (induction ss arbitrary: i) simp_all

lemma stage_results_load_loop:
  "load_loop d app r img ls i buf err = (buf', err', evs) \<Longrightarrow> stage_results evs = []"
proof (induction ls arbitrary: i buf err buf' err' evs)
  case Nil
  then show ?case by simp
next
  case (Cons l ls)
  then show ?case
    by (auto simp: stage_results_append split: prod.splits option.splits if_splits)
qed

lemma stage_results_load_produce: "stage_results (snd (load_produce d app r img)) = []"
  by (auto simp: load_produce_def save_def stage_results_append stage_results_save_loop Let_def
      dest: stage_results_load_loop split: prod.splits option.splits)

lemma stage_results_load: "stage_results (snd (snd (load d app r img c))) = []"
  by (simp add: load_def DoBytes_def stage_results_load_produce split: option.splits prod.splits)

lemma stage_results_run_stage: "stage_results (snd (snd (run_stage d app r t c))) = []"
proof (induction t arbitrary: c)
  case (Result x)
  then show ?case by simp
next
  case (CallLoad img k)
  obtain res c1 evs1 where l: "load d app r img c = (res, c1, evs1)"
    by (cases "load d app r img c")
  obtain x c2 evs2 where s: "run_stage d app r (k res) c1 = (x, c2, evs2)"
    by (cases "run_stage d app r (k res) c1")
  have "stage_results evs1 = []"
    using stage_results_load [of d app r img c] l by simp
  moreover have "stage_results evs2 = []"
    using CallLoad.IH [OF rangeI, of res c1] s by simp
  ultimately show ?case using l s by (simp add: stage_results_append)
qed

subsection \<open>The loop over the processors\<close>

lemma Do_loop_err:
  "Do_loop d app r params ps i buf meta err c = ((b', m', e'), c', evs) \<Longrightarrow>
     e' = (case filter (\<lambda>e. e \<noteq> Imagor (ErrPass d)) (stage_errors evs) of
             [] \<Rightarrow> err | x # xs \<Rightarrow> Some (last (x # xs)))"
proof (induction ps arbitrary: i buf meta err c b' m' e' c' evs)
  case Nil
  then show ?case by (simp add: stage_errors_def)
next
  case (Cons p ps)
  obtain b m e c1 evs1 where s: "run_stage d app r (p buf params) c = ((b, m, e), c1, evs1)"
    by (cases "run_stage d app r (p buf params) c") auto
  have n: "stage_results evs1 = []"
    using stage_results_run_stage [of d app r "p buf params" c] s by simp
  show ?case
  proof (cases e)
    case None
    with Cons.prems s n show ?thesis
      by (auto simp: stage_errors_def stage_results_append)
  next
    case (Some e1)
    show ?thesis
    proof (cases "e1 = Imagor (ErrPass d)")
      case True
      obtain res c2 evs2 where rec:
        "Do_loop d app r params ps (Suc i) (if length b > 0 then b else buf) meta err c1
           = (res, c2, evs2)"
        by (cases "Do_loop d app r params ps (Suc i) (if length b > 0 then b else buf) meta err c1")
      with Cons.prems s Some True have "res = (b', m', e')" by simp
      from Cons.IH [OF rec [unfolded this]] Cons.prems s Some True rec n show ?thesis
        by (auto simp: stage_errors_def stage_results_append)
    next
      case False
      obtain res c2 evs2 where rec:
        "Do_loop d app r params ps (Suc i) buf meta (Some e1) c1 = (res, c2, evs2)"
        by (cases "Do_loop d app r params ps (Suc i) buf meta (Some e1) c1")
      with Cons.prems s Some False have "res = (b', m', e')" by simp
      from Cons.IH [OF rec [unfolded this]] Cons.prems s Some False rec n show ?thesis
        by (auto simp: stage_errors_def stage_results_append split: list.splits)
    qed
  qed
qed

lemma Do_loop_meta:
  "Do_loop d app r params ps i buf meta err c = ((b', m', e'), c', evs) \<Longrightarrow>
   \<forall>res \<in> set (stage_results evs). snd (snd res) \<noteq> None \<Longrightarrow> m' = meta"
proof (induction ps arbitrary: i buf meta err c b' m' e' c' evs)
  case Nil
  then show ?case by simp
next
  case (Cons p ps)
  obtain b m e c1 evs1 where s: "run_stage d app r (p buf params) c = ((b, m, e), c1, evs1)"
    by (cases "run_stage d app r (p buf params) c") auto
  have n: "stage_results evs1 = []"
    using stage_results_run_stage [of d app r "p buf params" c] s by simp
  show ?case
  proof (cases e)
    case None
    with Cons.prems s n show ?thesis
      by (auto simp: stage_results_append)
  next
    case (Some e1)
    show ?thesis
    proof (cases "e1 = Imagor (ErrPass d)")
      case True
      obtain res c2 evs2 where rec:
        "Do_loop d app r params ps (Suc i) (if length b > 0 then b else buf) meta err c1
           = (res, c2, evs2)"
        by (cases "Do_loop d app r params ps (Suc i) (if length b > 0 then b else buf) meta err c1")
      with Cons.prems s Some True have "res = (b', m', e')" by simp
      from Cons.IH [OF rec [unfolded this]] Cons.prems s Some True rec n show ?thesis
        by (auto simp: stage_results_append)
    next
      case False
      obtain res c2 evs2 where rec:
        "Do_loop d app r params ps (Suc i) buf meta (Some e1) c1 = (res, c2, evs2)"
        by (cases "Do_loop d app r params ps (Suc i) buf meta (Some e1) c1")
      with Cons.prems s Some False have "res = (b', m', e')" by simp
      from Cons.IH [OF rec [unfolded this]] Cons.prems s Some False rec n show ?thesis
        by (auto simp: stage_results_append)
    qed
  qed
qed

lemma Do_loop_success:
  "Do_loop d app r params ps i buf meta err c = ((b', m', e'), c', evs) \<Longrightarrow>
   (b, m, None) \<in> set (stage_results evs) \<Longrightarrow>
     b' = b \<and> m' = m \<and> last (stage_results evs) = (b, m, None)"
proof (induction ps arbitrary: i buf meta err c b' m' e' c' evs)
  case Nil
  then show ?case by simp
next
  case (Cons p ps)
  obtain b1 m1 e1 c1 evs1 where
    s: "run_stage d app r (p buf params) c = ((b1, m1, e1), c1, evs1)"
    by (cases "run_stage d app r (p buf params) c") auto
  have n: "stage_results evs1 = []"
    using stage_results_run_stage [of d app r "p buf params" c] s by simp
  show ?case
  proof (cases e1)
    case None
    with Cons.prems s n show ?thesis
      by (auto simp: stage_results_append split: if_splits)
  next
    case (Some e)
    show ?thesis
    proof (cases "e = Imagor (ErrPass d)")
      case True
      obtain res c2 evs2 where rec:
        "Do_loop d app r params ps (Suc i) (if length b1 > 0 then b1 else buf) meta err c1
           = (res, c2, evs2)"
        by (cases "Do_loop d app r params ps (Suc i) (if length b1 > 0 then b1 else buf) meta err c1")
      with Cons.prems s Some True have res: "res = (b', m', e')" by simp
      from Cons.prems s Some True rec n have
        sr: "stage_results evs = (b1, m1, Some e) # stage_results evs2"
        by (auto simp: stage_results_append)
      with Cons.prems(2) have "(b, m, None) \<in> set (stage_results evs2)" by simp
      from Cons.IH [OF rec [unfolded res] this] this sr show ?thesis
        by auto
    next
      case False
      obtain res c2 evs2 where rec:
        "Do_loop d app r params ps (Suc i) buf meta (Some e) c1 = (res, c2, evs2)"
        by (cases "Do_loop d app r params ps (Suc i) buf meta (Some e) c1")
      with Cons.prems s Some False have res: "res = (b', m', e')" by simp
      from Cons.prems s Some False rec n have
        sr: "stage_results evs = (b1, m1, Some e) # stage_results evs2"
        by (auto simp: stage_results_append)
      with Cons.prems(2) have "(b, m, None) \<in> set (stage_results evs2)" by simp
      from Cons.IH [OF rec [unfolded res] this] this sr show ?thesis
        by auto
    qed
  qed
qed

subsection \<open>The producing function and load\<close>

lemma loader_calls_save_loop: "loader_calls (save_loop app ss i img buf) = []"
  by (induction ss arbitrary: i) simp_all

lemma errors_Is_Canceled_not_Imagor: "errors_Is_Canceled e \<Longrightarrow> e \<noteq> Imagor x"
  by (cases e) simp_all

lemma load_produce_of_loop:
  assumes "load_loop d app r img (Loaders app) 0 [] None = (buf, err, evs)"
  shows "fst (load_produce d app r img)
           = (buf, map_option (\<lambda>e. if e = Imagor (ErrPass d) then Imagor (ErrNotFound d) else e) err)
         \<and> loader_calls (snd (load_produce d app r img)) = loader_calls evs"
proof (cases err)
  case None
  with assms show ?thesis
    by (simp add: load_produce_def loader_calls_append save_def loader_calls_save_loop)
next
  case (Some e)
  with assms show ?thesis
    by (auto simp: load_produce_def loader_calls_append Let_def
        dest: errors_Is_Canceled_not_Imagor)
qed

lemma load_produce_result:
  "fst (fst (load_produce d app r img))
     = last_nonempty [] (map (\<lambda>l. fst (l r img)) (tried r img (Loaders app)))
   \<and> snd (fst (load_produce d app r img))
     = (if list_all (failing r img) (Loaders app) \<and> Loaders app \<noteq> []
        then map_option (\<lambda>e. if e = Imagor (ErrPass d) then Imagor (ErrNotFound d) else e)
               (snd (last (Loaders app) r img))
        else None)
   \<and> loader_calls (snd (load_produce d app r img)) = [0 ..< length (tried r img (Loaders app))]"
proof -
  obtain buf err evs where l: "load_loop d app r img (Loaders app) 0 [] None = (buf, err, evs)"
    by (cases "load_loop d app r img (Loaders app) 0 [] None")
  from load_loop_result [OF l] load_produce_of_loop [OF l] show ?thesis
    by simp
qed

lemma load_miss:
  "c img = None \<Longrightarrow>
     load d app r img c =
       ((fst (fst (load_produce d app r img)), WrapError (snd (fst (load_produce d app r img)))),
        c(img \<mapsto> fst (load_produce d app r img)),
        CacheMiss img # snd (load_produce d app r img))"
  by (simp add: load_def DoBytes_def split: prod.splits)

lemma WrapError_None: "WrapError e = None \<longleftrightarrow> e = None"
  by (simp add: WrapError_def split: option.splits goerror.splits)

lemma WrapError_Imagor: "WrapError (Some (Imagor e)) = Some (Imagor e)"
  by (simp add: WrapError_def)

lemma last_nonempty_filter:
  "last_nonempty buf bs =
     (if filter (\<lambda>b. length b > 0) bs = [] then buf else last (filter (\<lambda>b. length b > 0) bs))"
  by (simp add: last_nonempty_def split: list.splits)

lemma tried_first_success:
  assumes "\<forall>l \<in> set xs. failing r img l" and "\<not> failing r img B"
  shows "tried r img (xs @ B # post) = xs @ [B]"
proof -
  have "takeWhile (failing r img) (xs @ B # post) = xs"
    using assms by (simp add: takeWhile_tail)
  then show ?thesis by (simp add: tried_def)
qed

subsection \<open>The result of Do and the response\<close>

lemma Do_loop_never_Pass:
  assumes "Do_loop d app r params ps i buf meta None c = ((b', m', e'), c', evs)"
  shows "e' \<noteq> Some (Imagor (ErrPass d))"
proof
  assume p: "e' = Some (Imagor (ErrPass d))"
  let ?es = "filter (\<lambda>e. e \<noteq> Imagor (ErrPass d)) (stage_errors evs)"
  from Do_loop_err [OF assms] p have "?es \<noteq> []" and "last ?es = Imagor (ErrPass d)"
    by (auto split: list.splits)
  then have "Imagor (ErrPass d) \<in> set ?es"
    using last_in_set [of ?es] by simp
  then show False by simp
qed

lemma Do_Pass_no_meta:
  assumes "snd (snd (returned (Do d app r params c))) = Some (Imagor (ErrPass d))"
  shows "fst (snd (returned (Do d app r params c))) = None"
proof (cases "\<not> (Unsafe app \<and> params_Unsafe params) \<and> \<not> Verify d params (Secret app)")
  case True
  then show ?thesis by (simp add: Do_def returned_def)
next
  case False
  obtain buf0 err0 c1 evs1 where
    l: "load d app r (params_Image params) c = ((buf0, err0), c1, evs1)"
    by (cases "load d app r (params_Image params) c") auto
  show ?thesis
  proof (cases err0)
    case (Some e)
    with False l show ?thesis by (simp add: Do_def returned_def)
  next
    case None
    obtain b' m' e' c2 evs2 where lp:
      "Do_loop d app r params (Processors app) 0 buf0 None None c1 = ((b', m', e'), c2, evs2)"
      by (cases "Do_loop d app r params (Processors app) 0 buf0 None None c1") auto
    from False l None lp have "Do d app r params c = ((b', m', e'), c2, evs1 @ evs2)"
      by (auto simp: Do_def)
    with assms Do_loop_never_Pass [OF lp] show ?thesis
      by (simp add: returned_def)
  qed
qed

lemma ServeHTTP_respond:
  "EscapedPath r \<noteq> ''/'' \<Longrightarrow>
     returned (ServeHTTP d app r c)
       = respond d (ParseParams d (EscapedPath r))
           (returned (Do d app r (ParseParams d (EscapedPath r)) c))"
  by (simp add: ServeHTTP_def returned_def Let_def split: prod.splits)

lemma respond_Pass_statuses:
  "set (statuses (respond d params (buf, meta, Some (Imagor (ErrPass d)))))
     \<subseteq> {Code (ErrNotFound d)}"
  by (auto simp: respond_def resJSON_def WrapError_def Let_def split: option.splits)

lemma respond_Pass_no_meta:
  "statuses (respond d params (buf, None, Some (Imagor (ErrPass d)))) = [Code (ErrNotFound d)]"
  by (simp add: respond_def resJSON_def WrapError_def Let_def)

section \<open>The claims\<close>

text \<open>
  C1. Processor chain, first success. The claim is that \<open>Do\<close> returns the bytes and the
  metadata of the first stage whose error is nil, with no error, whatever earlier stages
  returned. The loop of \<open>Do\<close> assigns \<open>buf\<close> and \<open>meta\<close> on success and breaks, but leaves
  \<open>err\<close> as it is, where the loop of \<open>load\<close> assigns \<open>err = nil\<close>. With a first stage that
  fails on decoding and a second stage that succeeds, \<open>Do\<close> returns the bytes and the
  metadata of the second stage together with the error of the first. (That the loop
  stops at the first success and returns its bytes and metadata is \<open>Do_loop_success\<close>;
  that the error is the last one recorded is \<open>Do_loop_err\<close>.)
\<close>

theorem Do_keeps_error_after_success:
  "returned (Do example_deps (example_app\<lparr>Processors := [stage_fails, stage_ok]\<rparr>)
       example_request signed_params cold)
     = ([1, 2, 3, 9], Some \<lparr>ContentType = ''image/png''\<rparr>, Some (Opaque ''decode''))"
  by (simp add: returned_def Do_def Verify_def load_def DoBytes_def load_produce_def
      WrapError_def Let_def example_deps_def signed_params_def example_app_def loader_bytes_def
      cold_def stage_fails_def stage_ok_def)

text \<open>
  C2. Processor chain, exhaustion. As stated, the claim fails where every stage returns
  \<open>ErrPass\<close>: the loop never assigns \<open>ErrPass\<close> to \<open>err\<close>, so \<open>Do\<close> returns a nil error.
\<close>

theorem Do_all_pass_counterexample:
  "stage_results (events (Do example_deps (example_app\<lparr>Processors := [stage_pass]\<rparr>)
       example_request signed_params cold))
     = [([], None, Some (Imagor (ErrPass example_deps)))]
   \<and> snd (snd (returned (Do example_deps (example_app\<lparr>Processors := [stage_pass]\<rparr>)
       example_request signed_params cold)))
     \<noteq> Some (Imagor (ErrPass example_deps))"
  by (simp add: returned_def events_def Do_def Verify_def load_def DoBytes_def load_produce_def
      WrapError_def Let_def example_deps_def signed_params_def example_app_def loader_bytes_def
      cold_def stage_pass_def)

text \<open>
  C2, amended. For a request that is authorized and whose image loads, if no stage
  returns a nil error, then \<open>Do\<close> returns the last error other than \<open>ErrPass\<close> that a stage
  returned, and a nil error when every stage returned \<open>ErrPass\<close>; it returns no
  metadata.
\<close>

theorem Do_no_stage_succeeds:
  assumes auth: "Unsafe app \<and> params_Unsafe params \<or> Verify d params (Secret app)"
    and loaded: "snd (returned (load d app r (params_Image params) c)) = None"
    and fail: "\<forall>res \<in> set (stage_results (events (Do d app r params c))). snd (snd res) \<noteq> None"
  shows "snd (snd (returned (Do d app r params c))) =
           (case filter (\<lambda>e. e \<noteq> Imagor (ErrPass d))
                   (stage_errors (events (Do d app r params c))) of
              [] \<Rightarrow> None
            | x # xs \<Rightarrow> Some (last (x # xs)))
         \<and> fst (snd (returned (Do d app r params c))) = None"
proof -
  obtain buf0 err0 c1 evs1 where
    l: "load d app r (params_Image params) c = ((buf0, err0), c1, evs1)"
    by (cases "load d app r (params_Image params) c") auto
  with loaded have err0: "err0 = None" by (simp add: returned_def)
  obtain b' m' e' c2 evs2 where lp:
    "Do_loop d app r params (Processors app) 0 buf0 None None c1 = ((b', m', e'), c2, evs2)"
    by (cases "Do_loop d app r params (Processors app) 0 buf0 None None c1") auto
  have n: "stage_results evs1 = []"
    using stage_results_load [of d app r "params_Image params" c] l by simp
  have D: "Do d app r params c = ((b', m', e'), c2, evs1 @ evs2)"
    using auth l err0 lp by (auto simp: Do_def)
  have sr: "stage_results (events (Do d app r params c)) = stage_results evs2"
    by (simp add: D events_def stage_results_append n)
  have "e' = (case filter (\<lambda>e. e \<noteq> Imagor (ErrPass d)) (stage_errors evs2) of
                [] \<Rightarrow> None | x # xs \<Rightarrow> Some (last (x # xs)))"
    by (rule Do_loop_err [OF lp])
  moreover have "m' = None"
    using Do_loop_meta [OF lp] fail sr by simp
  ultimately show ?thesis
    using sr by (simp add: D returned_def stage_errors_def)
qed

theorem Do_no_stage_succeeds_witness:
  "(Unsafe (example_app\<lparr>Processors := [stage_fails, stage_pass]\<rparr>) \<and> params_Unsafe signed_params
      \<or> Verify example_deps signed_params
           (Secret (example_app\<lparr>Processors := [stage_fails, stage_pass]\<rparr>)))
   \<and> snd (returned (load example_deps (example_app\<lparr>Processors := [stage_fails, stage_pass]\<rparr>)
        example_request (params_Image signed_params) cold)) = None
   \<and> stage_results (events (Do example_deps (example_app\<lparr>Processors := [stage_fails, stage_pass]\<rparr>)
        example_request signed_params cold))
       = [([], None, Some (Opaque ''decode'')), ([], None, Some (Imagor (Error ''pass'' 400)))]
   \<and> returned (Do example_deps (example_app\<lparr>Processors := [stage_fails, stage_pass]\<rparr>)
        example_request signed_params cold) = ([1, 2, 3], None, Some (Opaque ''decode''))"
  using Do_no_stage_succeeds [of "example_app\<lparr>Processors := [stage_fails, stage_pass]\<rparr>"
      signed_params example_deps example_request cold]
  by (simp add: returned_def events_def Do_def Verify_def load_def DoBytes_def load_produce_def
      WrapError_def Let_def example_deps_def signed_params_def example_app_def loader_bytes_def
      cold_def stage_fails_def stage_pass_def)

text \<open>
  C3. Authorization precedes loading. When the server is not in unsafe mode for the
  request (\<open>app.Unsafe && params.Unsafe\<close> is false) and the token embedded in the request
  differs from the one recomputed from the canonical path and the secret, \<open>Do\<close> returns
  \<open>ErrHashMismatch\<close> with no bytes and no metadata, the cache is left as it was, no loader
  is called and the cache is not looked up: the only event is the debug line of the
  logger.
\<close>

theorem Do_rejects_before_loading:
  assumes "\<not> (Unsafe app \<and> params_Unsafe params)"
    and "params_Hash params \<noteq> Hash d (params_Path params) (Secret app)"
  shows "Do d app r params c =
           (([], None, Some (Imagor (ErrHashMismatch d))), c,
            if Debug app then [Logged LevelDebug ''hash mismatch'' None] else [])
         \<and> loader_calls (events (Do d app r params c)) = []
         \<and> cache_lookups (events (Do d app r params c)) = []"
  using assms by (auto simp: Do_def Verify_def events_def)

theorem Do_rejects_before_loading_witness:
  "\<not> (Unsafe example_app \<and> params_Unsafe (signed_params\<lparr>params_Hash := ''forged''\<rparr>))
   \<and> params_Hash (signed_params\<lparr>params_Hash := ''forged''\<rparr>)
       \<noteq> Hash example_deps (params_Path (signed_params\<lparr>params_Hash := ''forged''\<rparr>))
            (Secret example_app)
   \<and> Do example_deps example_app example_request (signed_params\<lparr>params_Hash := ''forged''\<rparr>) cold
       = (([], None, Some (Imagor (Error ''hash mismatch'' 403))), cold, [])"
  using Do_rejects_before_loading [of example_app "signed_params\<lparr>params_Hash := ''forged''\<rparr>"
      example_deps example_request cold]
  by (simp add: signed_params_def example_deps_def example_app_def)

text \<open>
  C4. Loader chain, exhaustion. When the cache holds no entry for the image, so that the
  chain runs, and every loader of a non-empty list returns an error, the producing
  function returns the error \<open>e\<close> of the last loader as it is, except that \<open>ErrPass\<close>
  becomes \<open>ErrNotFound\<close>; \<open>load\<close> returns that error classified by \<open>WrapError\<close>, which is
  \<open>ErrNotFound\<close> for a trailing \<open>ErrPass\<close> and \<open>e\<close> itself for any other \<open>imagor.Error\<close>.
  With the loaders \<open>[A(Pass), B(Pass)]\<close> the result is \<open>ErrNotFound\<close>.
\<close>

theorem load_exhausted:
  assumes miss: "c img = None"
    and nonempty: "Loaders app \<noteq> []"
    and fail: "\<forall>l \<in> set (Loaders app). snd (l r img) \<noteq> None"
    and trailing: "snd (last (Loaders app) r img) = Some e"
  shows "snd (fst (load_produce d app r img))
           = Some (if e = Imagor (ErrPass d) then Imagor (ErrNotFound d) else e)
         \<and> snd (returned (load d app r img c))
           = WrapError (Some (if e = Imagor (ErrPass d) then Imagor (ErrNotFound d) else e))
         \<and> (e = Imagor x \<longrightarrow>
              snd (returned (load d app r img c))
                = Some (Imagor (if x = ErrPass d then ErrNotFound d else x)))"
proof -
  have "list_all (failing r img) (Loaders app)"
    using fail by (simp add: list_all_iff failing_def)
  then have p: "snd (fst (load_produce d app r img))
      = Some (if e = Imagor (ErrPass d) then Imagor (ErrNotFound d) else e)"
    using load_produce_result [of d app r img] nonempty trailing by simp
  show ?thesis
    using p by (auto simp: load_miss [of c img, OF miss] returned_def WrapError_Imagor)
qed

theorem load_exhausted_witness:
  "cold ''a.jpg'' = None
   \<and> Loaders (example_app\<lparr>Loaders := [loader_pass, loader_pass]\<rparr>) \<noteq> []
   \<and> snd (loader_pass example_request ''a.jpg'') \<noteq> None
   \<and> snd (last (Loaders (example_app\<lparr>Loaders := [loader_pass, loader_pass]\<rparr>))
        example_request ''a.jpg'')
       = Some (Imagor (ErrPass example_deps))
   \<and> snd (returned (load example_deps (example_app\<lparr>Loaders := [loader_pass, loader_pass]\<rparr>)
        example_request ''a.jpg'' cold)) = Some (Imagor (ErrNotFound example_deps))"
  using load_exhausted [of cold "''a.jpg''" "example_app\<lparr>Loaders := [loader_pass, loader_pass]\<rparr>"
      example_request "Imagor (ErrPass example_deps)" example_deps "ErrPass example_deps"]
  by (simp add: cold_def example_app_def loader_pass_def example_deps_def WrapError_def)

text \<open>
  C5. Loader chain, fallback. When the cache holds no entry for the image, \<open>load\<close> calls
  the loaders in the order of the list, from the first up to and including the first one
  that returns a nil error, and no other; it returns a nil error exactly when some loader
  returned one (or the list is empty); the bytes it returns are the last non-empty bytes
  that a called loader returned, with or without an error. With the loaders
  \<open>[A(Pass), B(bytes, nil)]\<close> it returns the bytes of \<open>B\<close> and a nil error.
\<close>

theorem load_fallback:
  assumes miss: "c img = None"
  shows "loader_calls (events (load d app r img c)) = [0 ..< length (tried r img (Loaders app))]
         \<and> (snd (returned (load d app r img c)) = None
              \<longleftrightarrow> \<not> list_all (failing r img) (Loaders app) \<or> Loaders app = [])
         \<and> fst (returned (load d app r img c))
             = last_nonempty [] (map (\<lambda>l. fst (l r img)) (tried r img (Loaders app)))
         \<and> (Loaders app = [A, B] \<and> A r img = ([], Some (Imagor (ErrPass d))) \<and> B r img = (b, None)
              \<longrightarrow> returned (load d app r img c) = (b, None))"
proof -
  note p = load_produce_result [of d app r img]
  have 1: "loader_calls (events (load d app r img c)) = [0 ..< length (tried r img (Loaders app))]"
    using p by (simp add: load_miss [of c img, OF miss] events_def)
  have 2: "snd (returned (load d app r img c)) = None
             \<longleftrightarrow> \<not> list_all (failing r img) (Loaders app) \<or> Loaders app = []"
  proof (cases "list_all (failing r img) (Loaders app) \<and> Loaders app \<noteq> []")
    case True
    then have "failing r img (last (Loaders app))"
      by (simp add: list_all_iff)
    then obtain e where "snd (last (Loaders app) r img) = Some e"
      by (auto simp: failing_def)
    with True p show ?thesis
      by (simp add: load_miss [of c img, OF miss] returned_def WrapError_None)
  next
    case False
    with p show ?thesis
      by (auto simp: load_miss [of c img, OF miss] returned_def WrapError_None)
  qed
  have 3: "fst (returned (load d app r img c))
             = last_nonempty [] (map (\<lambda>l. fst (l r img)) (tried r img (Loaders app)))"
    using p by (simp add: load_miss [of c img, OF miss] returned_def)
  have 4: "returned (load d app r img c) = (b, None)"
    if "Loaders app = [A, B]" "A r img = ([], Some (Imagor (ErrPass d)))" "B r img = (b, None)"
  proof -
    have "tried r img (Loaders app) = [A, B]"
      using that by (simp add: tried_def failing_def)
    moreover have "\<not> list_all (failing r img) (Loaders app)"
      using that by (simp add: failing_def)
    ultimately show ?thesis
      using 2 3 that by (cases "returned (load d app r img c)") (simp add: last_nonempty_def)
  qed
  from 1 2 3 4 show ?thesis by blast
qed

theorem load_fallback_witness:
  "cold ''a.jpg'' = None
   \<and> Loaders (example_app\<lparr>Loaders := [loader_pass, loader_bytes]\<rparr>) = [loader_pass, loader_bytes]
   \<and> loader_pass example_request ''a.jpg'' = ([], Some (Imagor (ErrPass example_deps)))
   \<and> loader_bytes example_request ''a.jpg'' = ([1, 2, 3], None)
   \<and> loader_calls (events (load example_deps (example_app\<lparr>Loaders := [loader_pass, loader_bytes]\<rparr>)
        example_request ''a.jpg'' cold)) = [0, 1]
   \<and> returned (load example_deps (example_app\<lparr>Loaders := [loader_pass, loader_bytes]\<rparr>)
        example_request ''a.jpg'' cold) = ([1, 2, 3], None)"
  using load_fallback [of cold "''a.jpg''" example_deps
      "example_app\<lparr>Loaders := [loader_pass, loader_bytes]\<rparr>" example_request
      loader_pass loader_bytes "[1, 2, 3]"]
  by (simp add: cold_def example_app_def loader_pass_def loader_bytes_def example_deps_def
      tried_def failing_def)

text \<open>
  C6. Pass never escapes to the caller. For every request other than the root path
  whose pipeline result carries \<open>ErrPass\<close>, \<open>ServeHTTP\<close> writes one status, the status of
  \<open>ErrNotFound\<close>. (A result of \<open>Do\<close> that carries \<open>ErrPass\<close> carries no metadata, so the
  handler reaches the test of the error.) Moreover, whatever bytes and metadata come
  with \<open>ErrPass\<close>, a status that the handler writes is that of \<open>ErrNotFound\<close>.
\<close>

theorem ServeHTTP_Pass_as_NotFound:
  assumes uri: "EscapedPath r \<noteq> ''/''"
    and pass: "snd (snd (returned (Do d app r (ParseParams d (EscapedPath r)) c)))
                 = Some (Imagor (ErrPass d))"
  shows "statuses (returned (ServeHTTP d app r c)) = [Code (ErrNotFound d)]
         \<and> set (statuses (respond d params (buf, meta, Some (Imagor (ErrPass d)))))
             \<subseteq> {Code (ErrNotFound d)}"
proof -
  let ?params = "ParseParams d (EscapedPath r)"
  obtain buf0 meta0 err0 where res: "returned (Do d app r ?params c) = (buf0, meta0, err0)"
    by (cases "returned (Do d app r ?params c)")
  from pass res have err: "err0 = Some (Imagor (ErrPass d))" by simp
  from Do_Pass_no_meta [OF pass] res have meta: "meta0 = None" by simp
  have "statuses (returned (ServeHTTP d app r c)) = [Code (ErrNotFound d)]"
    by (simp add: ServeHTTP_respond [OF uri] res err meta respond_Pass_no_meta)
  then show ?thesis
    using respond_Pass_statuses [of d params buf meta] by simp
qed

theorem ServeHTTP_Pass_as_NotFound_witness:
  "EscapedPath example_request \<noteq> ''/''
   \<and> returned (Do example_deps example_app example_request
        (ParseParams example_deps (EscapedPath example_request)) stale_cache)
       = ([], None, Some (Imagor (ErrPass example_deps)))
   \<and> statuses (returned (ServeHTTP example_deps example_app example_request stale_cache)) = [404]
   \<and> Code (ErrPass example_deps) = 400"
  using ServeHTTP_Pass_as_NotFound [of example_request example_deps example_app stale_cache
      signed_params "[]" None]
  by (simp add: returned_def Do_def Verify_def load_def DoBytes_def WrapError_def Let_def
      example_deps_def signed_params_def example_app_def example_request_def cold_def
      stale_cache_def)

text \<open>
  C7. Fallback bytes are delivered with the error status. As stated, the claim fails for
  a metadata-only request whose pipeline returns metadata together with an error and a
  non-empty buffer: the handler writes the metadata as JSON and returns before it looks
  at the error, so no status and no byte of the buffer is written. \<open>Do\<close> returns such a
  result when a stage fails and a later stage succeeds.
\<close>

theorem ServeHTTP_meta_only_counterexample:
  "returned (Do meta_deps (example_app\<lparr>Processors := [stage_fails, stage_ok]\<rparr>) example_request
       (ParseParams meta_deps (EscapedPath example_request)) cold)
     = ([1, 2, 3, 9], Some \<lparr>ContentType = ''image/png''\<rparr>, Some (Opaque ''decode''))
   \<and> returned (ServeHTTP meta_deps (example_app\<lparr>Processors := [stage_fails, stage_ok]\<rparr>)
       example_request cold)
     = [Header_Set ''Content-Type'' ''application/json'', Header_Set ''Content-Length'' ''1'',
        Write [109]]"
  by (simp add: returned_def Do_def Verify_def load_def DoBytes_def load_produce_def
      WrapError_def Let_def ServeHTTP_def respond_def resJSON_def example_deps_def
      signed_params_def example_app_def loader_bytes_def cold_def example_request_def
      meta_deps_def meta_params_def stage_fails_def stage_ok_def)

text \<open>
  C7, amended. For a request other than the root path whose pipeline returns an error
  \<open>e\<close> and whose response is not the metadata of a metadata-only request, \<open>ServeHTTP\<close>
  writes the status of the classified error (that of \<open>ErrNotFound\<close> for \<open>ErrPass\<close>) and
  then one body: the buffer when it is not empty, and the JSON of the error only when
  the buffer is empty.
\<close>

theorem ServeHTTP_error_with_bytes:
  assumes uri: "EscapedPath r \<noteq> ''/''"
    and res: "returned (Do d app r (ParseParams d (EscapedPath r)) c) = (buf, meta, Some e)"
    and nometa: "meta = None \<or> \<not> params_Meta (ParseParams d (EscapedPath r))"
  shows "\<exists>e1. WrapError (Some e) = Some (Imagor e1) \<and>
           written (returned (ServeHTTP d app r c)) =
             [WriteHeader (Code (if e1 = ErrPass d then ErrNotFound d else e1)),
              Write (if length buf > 0 then buf else json_Marshal d (JSON_error e))]"
proof -
  obtain e1 where w: "WrapError (Some e) = Some (Imagor e1)"
    by (cases e) (simp_all add: WrapError_def)
  obtain c1 evs where
    D: "Do d app r (ParseParams d (EscapedPath r)) c = ((buf, meta, Some e), c1, evs)"
    using res by (cases "Do d app r (ParseParams d (EscapedPath r)) c") (simp add: returned_def)
  have "written (respond d (ParseParams d (EscapedPath r)) (buf, meta, Some e)) =
          [WriteHeader (Code (if e1 = ErrPass d then ErrNotFound d else e1)),
           Write (if length buf > 0 then buf else json_Marshal d (JSON_error e))]"
    using nometa w by (auto simp: respond_def resJSON_def Let_def split: option.splits)
  then show ?thesis
    using uri w D by (simp add: ServeHTTP_def returned_def Let_def)
qed

theorem ServeHTTP_error_with_bytes_witness:
  "EscapedPath example_request \<noteq> ''/''
   \<and> returned (Do example_deps (example_app\<lparr>Processors := [stage_fails]\<rparr>) example_request
        (ParseParams example_deps (EscapedPath example_request)) cold)
       = ([1, 2, 3], None, Some (Opaque ''decode''))
   \<and> WrapError (Some (Opaque ''decode'')) = Some (Imagor (Error ''decode'' 500))
   \<and> written (returned (ServeHTTP example_deps (example_app\<lparr>Processors := [stage_fails]\<rparr>)
        example_request cold))
       = [WriteHeader 500, Write [1, 2, 3]]"
  using ServeHTTP_error_with_bytes [of example_request example_deps
      "example_app\<lparr>Processors := [stage_fails]\<rparr>" cold "[1, 2, 3]" None "Opaque ''decode''"]
  by (simp add: returned_def Do_def Verify_def load_def DoBytes_def load_produce_def
      WrapError_def Let_def example_deps_def signed_params_def example_app_def loader_bytes_def
      cold_def example_request_def stage_fails_def)

text \<open>
  C9. Persistence fan-out and the timeout. The claim is that the \<open>cancel\<close> deferred by
  every goroutine of \<open>save\<close> is a non-nil function for every configuration. \<open>save\<close>
  assigns \<open>cancel\<close> only when \<open>RequestTimeout > 0\<close> and defers it in any case, where \<open>Do\<close>
  defers its \<open>cancel\<close> inside the test. With \<open>RequestTimeout = 0\<close> and one storage, the
  goroutine started after a successful load calls a nil function and panics.
\<close>

theorem save_defers_nil_cancel:
  "run_goroutines (example_app\<lparr>Storages := [storage_ok], RequestTimeout := 0\<rparr>)
     (events (load example_deps (example_app\<lparr>Storages := [storage_ok], RequestTimeout := 0\<rparr>)
        example_request ''a.jpg'' cold))
   = [Panicked]"
  by (simp add: events_def load_def DoBytes_def load_produce_def save_def save_goroutine_def
      WrapError_def Let_def example_deps_def example_app_def loader_bytes_def storage_ok_def
      cold_def)

text \<open>
  C10. Loader chain, a success with empty bytes. One step of the loop replaces the
  retained buffer by the bytes of the loader only when they are not empty. So when the
  cache holds no entry for the image, the loaders \<open>xs\<close> before \<open>B\<close> all return an error
  and \<open>B\<close> returns empty bytes and a nil error, \<open>load\<close> returns a nil error together with
  the last non-empty bytes that a loader of \<open>xs\<close> returned: the bytes of \<open>A\<close> when \<open>A\<close>
  returned non-empty bytes and the loaders between \<open>A\<close> and \<open>B\<close> returned none.
\<close>

theorem load_empty_success:
  assumes miss: "c img = None"
    and ls: "Loaders app = xs @ B # post"
    and fail: "\<forall>l \<in> set xs. snd (l r img) \<noteq> None"
    and B: "B r img = ([], None)"
  shows "fst (load_loop d app r img [l] i buf err)
           = (if length (fst (l r img)) > 0 then fst (l r img) else buf)
         \<and> returned (load d app r img c)
             = (last_nonempty [] (map (\<lambda>l. fst (l r img)) xs), None)
         \<and> (xs = pre @ A # mid \<and> fst (A r img) \<noteq> [] \<and> (\<forall>l \<in> set mid. fst (l r img) = [])
              \<longrightarrow> returned (load d app r img c) = (fst (A r img), None))"
proof -
  have f: "\<forall>l \<in> set xs. failing r img l"
    using fail by (simp add: failing_def)
  have nB: "\<not> failing r img B"
    using B by (simp add: failing_def)
  have t: "tried r img (Loaders app) = xs @ [B]"
    using tried_first_success [OF f nB, of post] ls by simp
  have na: "\<not> list_all (failing r img) (Loaders app)"
    using nB ls by (simp add: list_all_iff)
  have b: "last_nonempty [] (map (\<lambda>l. fst (l r img)) (tried r img (Loaders app)))
             = last_nonempty [] (map (\<lambda>l. fst (l r img)) xs)"
    using B by (simp add: t last_nonempty_filter)
  have 1: "fst (load_loop d app r img [l] i buf err)
             = (if length (fst (l r img)) > 0 then fst (l r img) else buf)"
    by (cases "l r img") (simp split: option.splits)
  have 2: "returned (load d app r img c) = (last_nonempty [] (map (\<lambda>l. fst (l r img)) xs), None)"
    using load_produce_result [of d app r img] na b
    by (simp add: load_miss [of c img, OF miss] returned_def WrapError_def)
  have 3: "returned (load d app r img c) = (fst (A r img), None)"
    if "xs = pre @ A # mid" "fst (A r img) \<noteq> []" "\<forall>l \<in> set mid. fst (l r img) = []"
  proof -
    have "filter (\<lambda>b. length b > 0) (map (\<lambda>l. fst (l r img)) mid) = []"
      using that by (simp add: filter_empty_conv)
    then have "last_nonempty [] (map (\<lambda>l. fst (l r img)) xs) = fst (A r img)"
      using that by (simp add: last_nonempty_filter)
    with 2 show ?thesis by simp
  qed
  from 1 2 3 show ?thesis by blast
qed

theorem load_empty_success_witness:
  "cold ''a.jpg'' = None
   \<and> Loaders (example_app\<lparr>Loaders := [loader_partial, loader_empty]\<rparr>)
       = [loader_partial] @ loader_empty # []
   \<and> snd (loader_partial example_request ''a.jpg'') \<noteq> None
   \<and> loader_empty example_request ''a.jpg'' = ([], None)
   \<and> [loader_partial] = [] @ loader_partial # []
   \<and> fst (loader_partial example_request ''a.jpg'') = [4, 5]
   \<and> returned (load example_deps (example_app\<lparr>Loaders := [loader_partial, loader_empty]\<rparr>)
        example_request ''a.jpg'' cold) = ([4, 5], None)"
  using load_empty_success [where c = cold and img = "''a.jpg''"
      and app = "example_app\<lparr>Loaders := [loader_partial, loader_empty]\<rparr>"
      and xs = "[loader_partial]" and B = loader_empty and post = "[]" and r = example_request
      and pre = "[]" and A = loader_partial and mid = "[]" and d = example_deps
      and l = loader_empty and i = 0 and buf = "[4, 5]" and err = None]
  by (simp add: cold_def example_app_def loader_partial_def loader_empty_def last_nonempty_def)

end
